theory Spec2Isabelle
  imports Main
begin

unbundle bit_operations_syntax

section \<open>Python strings\<close>

text \<open>
  A Python \<open>str\<close> is a sequence of Unicode code points: \<open>len\<close> counts code points and
  \<open>ord\<close> of a one-element string is its code point. A string is therefore a list of
  code points (natural numbers); \<open>str ''abc''\<close> writes an ASCII literal.
\<close>

type_synonym pystr = "nat list"

abbreviation str :: "string \<Rightarrow> pystr" where
  "str s \<equiv> map of_char s"

text \<open>
  \<open>str.isspace\<close> on one code point, which is what \<open>str.split()\<close>, \<open>str.strip()\<close> and
  \<open>str.rstrip()\<close> without an argument test: TAB..CR, FS..US, SPACE, NEL, NBSP and the
  Unicode space separators.
\<close>

definition isspace :: "nat \<Rightarrow> bool" where
  "isspace c \<longleftrightarrow>
     (9 \<le> c \<and> c \<le> 13) \<or> (28 \<le> c \<and> c \<le> 32) \<or> c = 133 \<or> c = 160 \<or> c = 5760 \<or>
     (8192 \<le> c \<and> c \<le> 8202) \<or> c = 8232 \<or> c = 8233 \<or> c = 8239 \<or> c = 8287 \<or> c = 12288"

definition lstrip :: "pystr \<Rightarrow> pystr" where
  "lstrip s = dropWhile isspace s"

definition rstrip :: "pystr \<Rightarrow> pystr" where
  "rstrip s = rev (dropWhile isspace (rev s))"

definition strip :: "pystr \<Rightarrow> pystr" where
  "strip s = rstrip (lstrip s)"

text \<open>\<open>s.strip(chars)\<close> for a one-character \<open>chars\<close>.\<close>

definition strip_char :: "nat \<Rightarrow> pystr \<Rightarrow> pystr" where
  "strip_char ch s = rev (dropWhile (\<lambda>c. c = ch) (rev (dropWhile (\<lambda>c. c = ch) s)))"

text \<open>
  \<open>s.split(maxsplit=n)\<close>: split on runs of whitespace, at most \<open>n\<close> times. Leading
  whitespace is skipped before every piece; once \<open>n\<close> pieces are cut, what is left
  (after its leading whitespace, with its trailing whitespace) is the last piece, if it
  is not empty.
\<close>

fun split_ws :: "nat \<Rightarrow> pystr \<Rightarrow> pystr list" where
  "split_ws 0 s =
     (let s' = dropWhile isspace s in if s' = [] then [] else [s'])"
| "split_ws (Suc n) s =
     (let s' = dropWhile isspace s in
      if s' = [] then []
      else takeWhile (\<lambda>c. \<not> isspace c) s' # split_ws n (dropWhile (\<lambda>c. \<not> isspace c) s'))"

text \<open>
  \<open>s.split(sep)\<close> for a one-character separator: one piece more than there are
  separators, so the result is never empty (the \<open>[]\<close> branch is not reached).
\<close>

fun split_on :: "nat \<Rightarrow> pystr \<Rightarrow> pystr list" where
  "split_on sep [] = [[]]"
| "split_on sep (c # cs) =
     (if c = sep then [] # split_on sep cs
      else (case split_on sep cs of
              p # ps \<Rightarrow> (c # p) # ps
            | [] \<Rightarrow> [[c]]))"

definition ascii_upper :: "nat \<Rightarrow> nat" where
  "ascii_upper c = (if 97 \<le> c \<and> c \<le> 122 then c - 32 else c)"

definition ascii_lower :: "nat \<Rightarrow> nat" where
  "ascii_lower c = (if 65 \<le> c \<and> c \<le> 90 then c + 32 else c)"

definition is_ascii :: "pystr \<Rightarrow> bool" where
  "is_ascii s = list_all (\<lambda>c. c < 128) s"

section \<open>Exceptions\<close>

text \<open>
  The exceptions the parsing code can meet. \<open>InvalidMods\<close> is the class defined in the
  module; \<open>IndexError\<close> is raised by indexing an empty sequence; \<open>ParserError\<close> stands
  for whatever exception (a subclass of \<open>Exception\<close>) a registered argument parser
  raises, with its message.
\<close>

datatype exn = InvalidMods | IndexError | ParserError pystr

section \<open>External collaborators\<close>

text \<open>
  What the module takes from outside and the sources do not contain, as one parameter:
  \<^item> \<open>glfw_mod e n\<close>, \<open>glfw_fkey e n\<close>, \<open>glfw_mouse_button e n\<close>: the attributes
    \<open>GLFW_MOD_n\<close>, \<open>GLFW_FKEY_n\<close>, \<open>GLFW_MOUSE_BUTTON_n\<close> of \<open>kitty.fast_data_types\<close>,
    \<open>None\<close> where \<open>getattr\<close> raises AttributeError;
  \<^item> \<open>glfw_mod_kitty e\<close>: the placeholder bit that \<open>resolve_key_mods\<close> replaces;
  \<^item> \<open>character_key_name_aliases\<close>, \<open>functional_key_name_aliases\<close>: the dictionaries
    of \<open>kitty.key_names\<close>; \<open>key_name_lookup e q\<close> is \<open>get_key_name_lookup()(q, False)\<close>;
  \<^item> \<open>args_funcs\<close>: the registry returned by \<open>key_func()\<close>, from a function name to its
    argument parser; a parser returns a function name and an argument list, or raises;
  \<^item> of Python itself: \<open>unicode_upper\<close> and \<open>unicode_lower\<close>, which are \<open>str.upper\<close>
    and \<open>str.lower\<close> on strings that are not pure ASCII, and \<open>py_int16 e q\<close>, which is
    \<open>int(q, 16)\<close>, \<open>None\<close> where it raises.
\<close>

record env =
  glfw_mod :: "pystr \<rightharpoonup> int"
  glfw_fkey :: "pystr \<rightharpoonup> int"
  glfw_mouse_button :: "pystr \<rightharpoonup> int"
  glfw_mod_kitty :: int
  character_key_name_aliases :: "pystr \<rightharpoonup> pystr"
  functional_key_name_aliases :: "pystr \<rightharpoonup> pystr"
  key_name_lookup :: "pystr \<Rightarrow> int option"
  args_funcs :: "pystr \<rightharpoonup> (pystr \<Rightarrow> pystr \<Rightarrow> exn + pystr \<times> pystr list)"
  unicode_upper :: "pystr \<Rightarrow> pystr"
  unicode_lower :: "pystr \<Rightarrow> pystr"
  py_int16 :: "pystr \<Rightarrow> int option"

text \<open>\<open>s.upper()\<close> and \<open>s.lower()\<close>: the ASCII mapping on ASCII strings.\<close>

definition upper :: "env \<Rightarrow> pystr \<Rightarrow> pystr" where
  "upper e s = (if is_ascii s then map ascii_upper s else unicode_upper e s)"

definition lower :: "env \<Rightarrow> pystr \<Rightarrow> pystr" where
  "lower e s = (if is_ascii s then map ascii_lower s else unicode_lower e s)"

section \<open>Data model\<close>

text \<open>\<open>KeyAction(func, args)\<close> and \<open>SingleKey(mods, is_native, key)\<close>, the named tuples.\<close>

record KeyAction =
  func :: pystr
  args :: "pystr list"

record SingleKey =
  mods :: int
  is_native :: bool
  key :: int

text \<open>
  The fields of a \<open>MouseMapping\<close> are prefixed with \<open>mm_\<close> and those of a
  \<open>KeyDefinition\<close> with \<open>kd_\<close>, since both classes have an \<open>action\<close>.
\<close>

record MouseMapping =
  mm_button :: int
  mm_mods :: int
  mm_repeat_count :: int
  mm_grabbed :: bool
  mm_action :: KeyAction

record KeyDefinition =
  kd_is_sequence :: bool
  kd_action :: KeyAction
  kd_trigger :: SingleKey
  kd_rest :: "SingleKey list"

section \<open>Modifiers and shortcuts\<close>

text \<open>The dictionary \<open>mod_map\<close>; U+2318 and U+2325 are the command and option signs.\<close>

definition mod_map :: "pystr \<rightharpoonup> pystr" where
  "mod_map = map_of
     [(str ''CTRL'', str ''CONTROL''), (str ''CMD'', str ''SUPER''), ([8984], str ''SUPER''),
      ([8997], str ''ALT''), (str ''OPTION'', str ''ALT''), (str ''KITTY_MOD'', str ''KITTY'')]"

definition map_mod :: "pystr \<Rightarrow> pystr" where
  "map_mod m = (case mod_map m of Some v \<Rightarrow> v | None \<Rightarrow> m)"

text \<open>
  \<open>character_key_name_aliases_with_ascii_lowercase\<close>: the copy of the external table,
  in which the loop over \<open>'ABCDEFGHIJKLMNOPQRSTUVWXYZ'\<close> then stores \<open>x.lower()\<close> under
  every upper-case ASCII letter \<open>x\<close>.
\<close>

definition character_key_name_aliases_with_ascii_lowercase :: "env \<Rightarrow> pystr \<rightharpoonup> pystr" where
  "character_key_name_aliases_with_ascii_lowercase e k =
     (case k of
        [c] \<Rightarrow> if 65 \<le> c \<and> c \<le> 90 then Some [c + 32] else character_key_name_aliases e k
      | _ \<Rightarrow> character_key_name_aliases e k)"

definition sequence_sep :: nat where
  "sequence_sep = 62"

text \<open>
  \<open>parse_mods\<close> returns its result (\<open>None\<close> or the mask) together with the messages it
  passes to \<open>log_error\<close>. The loop carries the mask built so far.
\<close>

definition unknown_modifier_msg :: "pystr \<Rightarrow> pystr" where
  "unknown_modifier_msg sc = str ''Shortcut: '' @ sc @ str '' has unknown modifier, ignoring''"

fun parse_mods_loop :: "env \<Rightarrow> pystr \<Rightarrow> int \<Rightarrow> pystr list \<Rightarrow> int option \<times> pystr list" where
  "parse_mods_loop e sc acc [] = (Some acc, [])"
| "parse_mods_loop e sc acc (m # ms) =
     (case glfw_mod e (map_mod (upper e m)) of
        Some b \<Rightarrow> parse_mods_loop e sc (acc OR b) ms
      | None \<Rightarrow> (None, if upper e m \<noteq> str ''NONE'' then [unknown_modifier_msg sc] else []))"

definition parse_mods :: "env \<Rightarrow> pystr list \<Rightarrow> pystr \<Rightarrow> int option \<times> pystr list" where
  "parse_mods e parts sc = parse_mods_loop e sc 0 parts"

text \<open>\<open>x or 0\<close> for an optional integer \<open>x\<close>.\<close>

definition or0 :: "int option \<Rightarrow> int" where
  "or0 x = (case x of None \<Rightarrow> 0 | Some n \<Rightarrow> n)"

definition to_modifiers :: "env \<Rightarrow> pystr \<Rightarrow> int" where
  "to_modifiers e val = or0 (fst (parse_mods e (split_on 43 val) val))"

text \<open>
  \<open>parse_shortcut\<close>. \<open>ord(q)\<close> succeeds exactly on a string of one code point; the
  messages logged by \<open>parse_mods\<close> are dropped here, as they do not reach the result.
\<close>

definition resolve_key :: "env \<Rightarrow> pystr \<Rightarrow> bool \<times> int" where
  "resolve_key e q =
     (if take 2 q = str ''0x'' then
        (case py_int16 e q of None \<Rightarrow> (False, 0) | Some k \<Rightarrow> (True, k))
      else
        (case q of
           [c] \<Rightarrow> (False, int c)
         | _ \<Rightarrow>
            (let uq = upper e q;
                 uq' = (case functional_key_name_aliases e uq of Some a \<Rightarrow> a | None \<Rightarrow> uq)
             in case glfw_fkey e uq' of
                  Some x \<Rightarrow> (False, x)
                | None \<Rightarrow> (let k = or0 (key_name_lookup e q) in (k > 0, k)))))"

definition parse_shortcut :: "env \<Rightarrow> pystr \<Rightarrow> exn + SingleKey" where
  "parse_shortcut e sc0 =
     (let sc = (if sc0 \<noteq> [] \<and> last sc0 = 43 \<and> length sc0 > 1
                then butlast sc0 @ str ''plus'' else sc0);
          parts = split_on 43 sc;
          ms = (if length parts > 1 then or0 (fst (parse_mods e (butlast parts) sc)) else 0)
      in if length parts > 1 \<and> ms = 0 then Inl InvalidMods
         else
           (let q0 = last parts;
                q = (case character_key_name_aliases_with_ascii_lowercase e (upper e q0) of
                       Some a \<Rightarrow> a | None \<Rightarrow> q0);
                (native, k) = resolve_key e q
            in Inr \<lparr>mods = ms, is_native = native, key = k\<rparr>))"

section \<open>Actions\<close>

text \<open>
  \<open>parse_key_action\<close>. \<open>parts[0]\<close> raises IndexError when the split gives nothing.
  An exception of the argument parser is caught (and logged), and the function then
  falls through to \<open>return None\<close>, as it does when no parser is registered.
\<close>

definition parse_key_action :: "env \<Rightarrow> pystr \<Rightarrow> exn + KeyAction option" where
  "parse_key_action e action =
     (case split_ws 1 (strip action) of
        [] \<Rightarrow> Inl IndexError
      | [f] \<Rightarrow> Inr (Some \<lparr>func = f, args = []\<rparr>)
      | f # rest # _ \<Rightarrow>
          (case args_funcs e f of
             None \<Rightarrow> Inr None
           | Some parser \<Rightarrow>
               (case parser f rest of
                  Inl err \<Rightarrow> Inr None
                | Inr (f', as) \<Rightarrow> Inr (Some \<lparr>func = f', args = as\<rparr>))))"

text \<open>
  \<open>BaseDefinition.resolve_kitten_aliases\<close> reads and replaces only \<open>self.action\<close>, so
  it is modelled on the action. The alias dictionary is an association list in
  iteration order. The loop has no \<open>break\<close>: it visits every entry and compares the key
  with the current value of \<open>kitten\<close>. \<open>expanded[0]\<close> raises IndexError on an empty
  expansion.
\<close>

type_synonym aliases = "(pystr \<times> pystr list) list"

fun alias_loop :: "aliases \<Rightarrow> pystr \<Rightarrow> pystr \<Rightarrow> bool \<Rightarrow> exn + pystr \<times> pystr \<times> bool" where
  "alias_loop [] kitten rest changed = Inr (kitten, rest, changed)"
| "alias_loop ((k, expanded) # als) kitten rest changed =
     (if k = kitten then
        (case expanded of
           [] \<Rightarrow> Inl IndexError
         | x # xs \<Rightarrow>
             alias_loop als x (case xs of [] \<Rightarrow> rest | y # _ \<Rightarrow> y @ str '' '' @ rest) True)
      else alias_loop als kitten rest changed)"

definition resolve_kitten_aliases :: "aliases \<Rightarrow> KeyAction \<Rightarrow> exn + KeyAction" where
  "resolve_kitten_aliases als a =
     (case args a of
        [] \<Rightarrow> Inr a
      | kitten # t \<Rightarrow>
          (case alias_loop als kitten (case t of [] \<Rightarrow> [] | r # _ \<Rightarrow> r) False of
             Inl x \<Rightarrow> Inl x
           | Inr (k, r, changed) \<Rightarrow>
               Inr (if changed then a\<lparr>args := [k, rstrip r]\<rparr> else a)))"

section \<open>Resolving the primary modifier\<close>

text \<open>
  Modelled from the spec: \<open>resolve_key_mods\<close> of \<open>kitty.fast_data_types\<close>, which is
  not part of the sources. It "substitutes a reserved placeholder modifier bit with the
  concrete bits of primaryModifier"; a mask without the placeholder is left as it is.
\<close>

definition resolve_key_mods :: "env \<Rightarrow> int \<Rightarrow> int \<Rightarrow> int" where
  "resolve_key_mods e kitty_mod m =
     (if m AND glfw_mod_kitty e \<noteq> 0 then (m AND NOT (glfw_mod_kitty e)) OR kitty_mod else m)"

definition MouseMapping_resolve :: "env \<Rightarrow> int \<Rightarrow> MouseMapping \<Rightarrow> MouseMapping" where
  "MouseMapping_resolve e kitty_mod m = m\<lparr>mm_mods := resolve_key_mods e kitty_mod (mm_mods m)\<rparr>"

text \<open>The inner function \<open>r\<close> of \<open>KeyDefinition.resolve\<close>.\<close>

definition resolve_r :: "env \<Rightarrow> int \<Rightarrow> SingleKey \<Rightarrow> SingleKey" where
  "resolve_r e kitty_mod k =
     \<lparr>mods = resolve_key_mods e kitty_mod (mods k), is_native = is_native k, key = key k\<rparr>"

definition KeyDefinition_resolve :: "env \<Rightarrow> int \<Rightarrow> KeyDefinition \<Rightarrow> KeyDefinition" where
  "KeyDefinition_resolve e kitty_mod d =
     d\<lparr>kd_trigger := resolve_r e kitty_mod (kd_trigger d),
      kd_rest := map (resolve_r e kitty_mod) (kd_rest d)\<rparr>"

section \<open>Key bindings\<close>

text \<open>
  The loop of \<open>parse_map\<close> over the segments of a sequence. \<open>Inr None\<close> is the
  \<open>return\<close> that ends the generator with nothing yielded; only \<open>InvalidMods\<close> is caught.
\<close>

fun parse_sequence ::
  "env \<Rightarrow> pystr list \<Rightarrow> SingleKey option \<Rightarrow> SingleKey list \<Rightarrow>
   exn + (SingleKey option \<times> SingleKey list) option" where
  "parse_sequence e [] trigger restl = Inr (Some (trigger, restl))"
| "parse_sequence e (part # ps) trigger restl =
     (case parse_shortcut e part of
        Inl InvalidMods \<Rightarrow> Inr None
      | Inl x \<Rightarrow> Inl x
      | Inr k \<Rightarrow>
          if key k = 0 then Inr None
          else (case trigger of
                  None \<Rightarrow> parse_sequence e ps (Some k) restl
                | Some t \<Rightarrow> parse_sequence e ps trigger (restl @ [k])))"

text \<open>
  The end of \<open>parse_map\<close>: the action is parsed, every exception of
  \<open>parse_key_action\<close> is caught, and one definition is yielded if there is an action.
\<close>

definition yield_definition ::
  "env \<Rightarrow> pystr \<Rightarrow> (KeyAction \<Rightarrow> KeyDefinition list) \<Rightarrow> exn + KeyDefinition list" where
  "yield_definition e action mk =
     (case parse_key_action e action of
        Inl x \<Rightarrow> Inr []
      | Inr None \<Rightarrow> Inr []
      | Inr (Some paction) \<Rightarrow> Inr (mk paction))"

definition parse_map :: "env \<Rightarrow> pystr \<Rightarrow> exn + KeyDefinition list" where
  "parse_map e val =
     (case split_ws 1 val of
        [sc0, action0] \<Rightarrow>
          (let sc = strip_char sequence_sep (strip sc0); action = strip action0 in
           if sc = [] \<or> action = [] then Inr []
           else if sequence_sep \<in> set sc then
             (case parse_sequence e (split_on sequence_sep sc) None [] of
                Inl x \<Rightarrow> Inl x
              | Inr None \<Rightarrow> Inr []
              | Inr (Some (trigger, rest)) \<Rightarrow>
                  yield_definition e action
                    (\<lambda>paction. case trigger of
                       None \<Rightarrow> []
                     | Some t \<Rightarrow>
                         [\<lparr>kd_is_sequence = True, kd_action = paction,
                           kd_trigger = t, kd_rest = rest\<rparr>]))
           else
             (case parse_shortcut e sc of
                Inl InvalidMods \<Rightarrow> Inr []
              | Inl x \<Rightarrow> Inl x
              | Inr k \<Rightarrow>
                  if key k = 0 then Inr []
                  else yield_definition e action
                         (\<lambda>paction. [\<lparr>kd_is_sequence = False, kd_action = paction,
                                       kd_trigger = k, kd_rest = []\<rparr>])))
      | _ \<Rightarrow> Inr [])"

section \<open>Mouse bindings\<close>

definition button_alias :: "pystr \<Rightarrow> pystr" where
  "button_alias obutton =
     (case map_of [(str ''left'', str ''b1''), (str ''middle'', str ''b3''),
                   (str ''right'', str ''b2'')] obutton of
        Some b \<Rightarrow> b | None \<Rightarrow> obutton)"

definition event_count :: "pystr \<rightharpoonup> int" where
  "event_count = map_of
     [(str ''doubleclick'', -3), (str ''click'', -2), (str ''release'', -1),
      (str ''press'', 1), (str ''doublepress'', 2), (str ''triplepress'', 3)]"

text \<open>
  \<open>frozenset(modes.lower().split(','))\<close>: the distinct pieces. Python iterates a
  frozenset in an order of its own; the list below has some order, and the theorems
  about the yielded mappings do not depend on it.
\<close>

definition specified_modes :: "env \<Rightarrow> pystr \<Rightarrow> pystr list" where
  "specified_modes e modes = remdups (split_on 44 (lower e modes))"

definition parse_mouse_map :: "env \<Rightarrow> pystr \<Rightarrow> exn + MouseMapping list" where
  "parse_mouse_map e val =
     (case split_ws 3 val of
        [xbutton, event, modes, action] \<Rightarrow>
          (let kparts = split_on 43 xbutton;
               obutton = (if length kparts > 1 then lower e (last kparts) else lower e xbutton);
               ms = (if length kparts > 1 then fst (parse_mods e (butlast kparts) obutton)
                     else Some 0)
           in case ms of
                None \<Rightarrow> Inr []
              | Some m \<Rightarrow>
                 (case glfw_mouse_button e (drop 1 (button_alias obutton)) of
                    None \<Rightarrow> Inr []
                  | Some button \<Rightarrow>
                     (case event_count (lower e event) of
                        None \<Rightarrow> Inr []
                      | Some cnt \<Rightarrow>
                         if filter (\<lambda>x. x \<noteq> str ''grabbed'' \<and> x \<noteq> str ''ungrabbed'')
                              (specified_modes e modes) \<noteq> []
                         then Inr []
                         else
                           (case parse_key_action e action of
                              Inl x \<Rightarrow> Inr []
                            | Inr None \<Rightarrow> Inr []
                            | Inr (Some paction) \<Rightarrow>
                                Inr (map (\<lambda>mode.
                                       \<lparr>mm_button = button, mm_mods = m, mm_repeat_count = cnt,
                                        mm_grabbed = (mode = str ''grabbed''),
                                        mm_action = paction\<rparr>)
                                     (specified_modes e modes))))))
      | _ \<Rightarrow> Inr [])"

section \<open>A sample environment\<close>

text \<open>
  A concrete environment on which the definitions can be run. Its tables are small
  stand-ins for the constants of \<open>kitty.fast_data_types\<close> and \<open>kitty.key_names\<close>; no module
  attribute is called \<open>GLFW_MOD_NONE\<close>. Two argument parsers are registered: the one of
  \<open>kitten\<close> splits off the plugin name, the one of \<open>goto_tab\<close> accepts digits only and
  raises otherwise. The theorems stated for every environment do not depend on it.
\<close>

fun hex_digits :: "pystr \<Rightarrow> int \<Rightarrow> int option" where
  "hex_digits [] acc = Some acc"
| "hex_digits (c # cs) acc =
     (if 48 \<le> c \<and> c \<le> 57 then hex_digits cs (16 * acc + int c - 48)
      else if 97 \<le> c \<and> c \<le> 102 then hex_digits cs (16 * acc + int c - 87)
      else if 65 \<le> c \<and> c \<le> 70 then hex_digits cs (16 * acc + int c - 55)
      else None)"

definition plain_int16 :: "pystr \<Rightarrow> int option" where
  "plain_int16 q = (if drop 2 q = [] then None else hex_digits (drop 2 q) 0)"

definition kitten_parse :: "pystr \<Rightarrow> pystr \<Rightarrow> exn + pystr \<times> pystr list" where
  "kitten_parse f rest = Inr (str ''kitten'', split_ws 1 rest)"

definition goto_tab_parse :: "pystr \<Rightarrow> pystr \<Rightarrow> exn + pystr \<times> pystr list" where
  "goto_tab_parse f rest =
     (if list_all (\<lambda>c. 48 \<le> c \<and> c \<le> 57) rest then Inr (f, [rest])
      else Inl (ParserError (str ''invalid literal for int()'')))"

definition example_env :: env where
  "example_env =
     \<lparr>glfw_mod = map_of
        [(str ''SHIFT'', 1), (str ''ALT'', 2), (str ''CONTROL'', 4), (str ''SUPER'', 8),
         (str ''HYPER'', 16), (str ''META'', 32), (str ''CAPS_LOCK'', 64),
         (str ''NUM_LOCK'', 128), (str ''KITTY'', 256)],
      glfw_fkey = map_of
        [(str ''ESCAPE'', 57344), (str ''ENTER'', 57345), (str ''TAB'', 57346),
         (str ''F1'', 57364)],
      glfw_mouse_button = map_of
        [(str ''1'', 0), (str ''2'', 1), (str ''3'', 2), (str ''4'', 3), (str ''5'', 4)],
      glfw_mod_kitty = 256,
      character_key_name_aliases = map_of
        [(str ''SPC'', str '' ''), (str ''SPACE'', str '' ''), (str ''PLUS'', str ''+''),
         (str ''MINUS'', str ''-'')],
      functional_key_name_aliases = map_of
        [(str ''ESC'', str ''ESCAPE''), (str ''RETURN'', str ''ENTER'')],
      key_name_lookup = (\<lambda>q. None),
      args_funcs = map_of
        [(str ''kitten'', kitten_parse), (str ''goto_tab'', goto_tab_parse)],
      unicode_upper = (\<lambda>s. s),
      unicode_lower = (\<lambda>s. s),
      py_int16 = plain_int16\<rparr>"

section \<open>Evaluating upper and lower on ASCII text\<close>

lemmas str_defs = upper_def lower_def is_ascii_def ascii_upper_def ascii_lower_def

section \<open>Shortcuts\<close>

lemma parse_shortcut_upper_letter:
  assumes "65 \<le> c" and "c \<le> 90"
  shows "parse_shortcut e [c] = Inr \<lparr>mods = 0, is_native = False, key = int (ascii_lower c)\<rparr>"
proof -
  have u: "upper e [c] = [c]"
    using assms by (simp add: str_defs)
  have p: "split_on 43 [c] = [[c]]"
    using assms by simp
  have al: "character_key_name_aliases_with_ascii_lowercase e [c] = Some [ascii_lower c]"
    using assms by (simp add: character_key_name_aliases_with_ascii_lowercase_def ascii_lower_def)
  have rk: "resolve_key e [ascii_lower c] = (False, int (ascii_lower c))"
    by (simp add: resolve_key_def)
  show ?thesis
    using u p al rk by (simp add: parse_shortcut_def)
qed

text \<open>
  C9: \<open>parse_shortcut("ctrl+a")\<close> returns a trigger whose mask is exactly the CTRL bit
  (the value of \<open>GLFW_MOD_CONTROL\<close>, a non-zero bit), not native, with key code
  \<open>ord('a')\<close>; \<open>parse_shortcut("A")\<close> returns the same key code with mask 0; and every
  bare upper-case ASCII letter resolves to the key code of its lower-case letter, with
  mask 0 and not native: never to an implicit shift.
\<close>

theorem parse_shortcut_ctrl_a:
  assumes "glfw_mod e (str ''CONTROL'') = Some ctrl" and "ctrl \<noteq> 0"
  shows "parse_shortcut e (str ''ctrl+a'') =
           Inr \<lparr>mods = ctrl, is_native = False, key = int (of_char CHR ''a'')\<rparr>
       \<and> parse_shortcut e (str ''A'') =
           Inr \<lparr>mods = 0, is_native = False, key = int (of_char CHR ''a'')\<rparr>
       \<and> (\<forall>c. 65 \<le> c \<and> c \<le> 90 \<longrightarrow>
             parse_shortcut e [c] = Inr \<lparr>mods = 0, is_native = False, key = int c + 32\<rparr>)"
proof (intro conjI allI impI)
  have u: "upper e (str ''ctrl'') = str ''CTRL''" "upper e (str ''a'') = str ''A''"
    by (simp_all add: str_defs)
  have m: "map_mod (str ''CTRL'') = str ''CONTROL''"
    by (simp add: map_mod_def mod_map_def)
  have pm: "parse_mods e [str ''ctrl''] sc = (Some ctrl, [])" for sc
    using assms(1) u(1) m by (simp add: parse_mods_def)
  have al: "character_key_name_aliases_with_ascii_lowercase e (str ''A'') = Some (str ''a'')"
    by (simp add: character_key_name_aliases_with_ascii_lowercase_def)
  have rk: "resolve_key e (str ''a'') = (False, int (of_char CHR ''a''))"
    by (simp add: resolve_key_def)
  show "parse_shortcut e (str ''ctrl+a'') =
          Inr \<lparr>mods = ctrl, is_native = False, key = int (of_char CHR ''a'')\<rparr>"
    using assms(2) pm u(2) al rk by (simp add: parse_shortcut_def or0_def)
  show "parse_shortcut e (str ''A'') =
          Inr \<lparr>mods = 0, is_native = False, key = int (of_char CHR ''a'')\<rparr>"
    using parse_shortcut_upper_letter [of 65 e] by (simp add: ascii_lower_def)
  show "parse_shortcut e [c] = Inr \<lparr>mods = 0, is_native = False, key = int c + 32\<rparr>"
    if "65 \<le> c \<and> c \<le> 90" for c
    using that parse_shortcut_upper_letter [of c e] by (simp add: ascii_lower_def)
qed

theorem parse_shortcut_ctrl_a_witness:
  "glfw_mod example_env (str ''CONTROL'') = Some 4 \<and> (4::int) \<noteq> 0
   \<and> parse_shortcut example_env (str ''ctrl+a'') = Inr \<lparr>mods = 4, is_native = False, key = 97\<rparr>
   \<and> parse_shortcut example_env (str ''A'') = Inr \<lparr>mods = 0, is_native = False, key = 97\<rparr>
   \<and> parse_shortcut example_env (str ''B'') = Inr \<lparr>mods = 0, is_native = False, key = 98\<rparr>
   \<and> parse_shortcut example_env (str ''Z'') = Inr \<lparr>mods = 0, is_native = False, key = 122\<rparr>"
proof -
  have g: "glfw_mod example_env (str ''CONTROL'') = Some 4"
    by (simp add: example_env_def)
  have n: "(4::int) \<noteq> 0" by simp
  note t = parse_shortcut_ctrl_a [OF g n]
  from t have a: "parse_shortcut example_env (str ''ctrl+a'') = Inr \<lparr>mods = 4, is_native = False, key = 97\<rparr>"
    "parse_shortcut example_env (str ''A'') = Inr \<lparr>mods = 0, is_native = False, key = 97\<rparr>"
    by simp_all
  from t have "parse_shortcut example_env [66] = Inr \<lparr>mods = 0, is_native = False, key = int 66 + 32\<rparr>"
    by (elim conjE allE [of _ 66]) simp
  then have b: "parse_shortcut example_env (str ''B'') = Inr \<lparr>mods = 0, is_native = False, key = 98\<rparr>"
    by simp
  from t have "parse_shortcut example_env [90] = Inr \<lparr>mods = 0, is_native = False, key = int 90 + 32\<rparr>"
    by (elim conjE allE [of _ 90]) simp
  then have z: "parse_shortcut example_env (str ''Z'') = Inr \<lparr>mods = 0, is_native = False, key = 122\<rparr>"
    by simp
  show ?thesis using g a b z by simp
qed

section \<open>Modifier tokens\<close>

text \<open>
  The loop of \<open>parse_mods\<close> ends at the first token that names no modifier constant:
  the result is \<open>None\<close>, and the warning is logged unless the token is \<open>NONE\<close> in some
  letter case.
\<close>

lemma parse_mods_loop_stops:
  assumes "glfw_mod e (map_mod (upper e m)) = None"
    and "\<forall>t\<in>set pre. glfw_mod e (map_mod (upper e t)) \<noteq> None"
  shows "parse_mods_loop e sc acc (pre @ m # post) =
           (None, if upper e m \<noteq> str ''NONE'' then [unknown_modifier_msg sc] else [])"
  using assms(2)
proof (induction pre arbitrary: acc)
  case Nil
  show ?case using assms(1) by simp
next
  case (Cons t pre)
  then obtain b where "glfw_mod e (map_mod (upper e t)) = Some b" by auto
  with Cons show ?case by simp
qed

lemma map_mod_NONE: "map_mod (str ''NONE'') = str ''NONE''"
  by (simp add: map_mod_def mod_map_def)

text \<open>
  C2, as stated, fails: \<open>parse_mods(['none'], 'none')\<close> is \<open>None\<close>, not the mask 0.
\<close>

theorem parse_mods_none_counterexample:
  "parse_mods example_env [str ''none''] (str ''none'') = (None, [])"
  by (simp add: parse_mods_def example_env_def str_defs map_mod_def mod_map_def)

text \<open>
  C2, amended: where no constant \<open>GLFW_MOD_NONE\<close> exists, the first token that is
  \<open>NONE\<close> in any letter case, after tokens that all resolve, contributes no bits and
  logs no warning, but ends the call with the result \<open>None\<close>: the tokens after it are
  not looked at. It is \<open>to_modifiers\<close> that reads this \<open>None\<close> as the mask 0.
\<close>

theorem parse_mods_none_token:
  assumes "glfw_mod e (str ''NONE'') = None"
    and "upper e m = str ''NONE''"
    and "\<forall>t\<in>set pre. glfw_mod e (map_mod (upper e t)) \<noteq> None"
  shows "parse_mods e (pre @ m # post) sc = (None, [])
       \<and> to_modifiers e (str ''none'') = 0"
proof
  have "glfw_mod e (map_mod (upper e m)) = None"
    using assms(1,2) map_mod_NONE by simp
  from parse_mods_loop_stops [OF this assms(3)] assms(2)
  show "parse_mods e (pre @ m # post) sc = (None, [])"
    by (simp add: parse_mods_def)
  have "upper e (str ''none'') = str ''NONE''"
    by (simp add: str_defs)
  then show "to_modifiers e (str ''none'') = 0"
    using assms(1) map_mod_NONE by (simp add: to_modifiers_def parse_mods_def or0_def)
qed

theorem parse_mods_none_token_witness:
  "glfw_mod example_env (str ''NONE'') = None
   \<and> upper example_env (str ''NoNe'') = str ''NONE''
   \<and> glfw_mod example_env (map_mod (upper example_env (str ''ctrl''))) = Some 4
   \<and> parse_mods example_env [str ''ctrl'', str ''NoNe'', str ''shift'']
         (str ''ctrl+NoNe+shift+a'') = (None, [])
   \<and> to_modifiers example_env (str ''none'') = 0"
proof -
  have a: "glfw_mod example_env (str ''NONE'') = None"
    by (simp add: example_env_def)
  have b: "upper example_env (str ''NoNe'') = str ''NONE''"
    by (simp add: str_defs)
  have c: "\<forall>t\<in>set [str ''ctrl'']. glfw_mod example_env (map_mod (upper example_env t)) \<noteq> None"
    by (simp add: str_defs map_mod_def mod_map_def example_env_def)
  have d: "glfw_mod example_env (map_mod (upper example_env (str ''ctrl''))) = Some 4"
    by (simp add: str_defs map_mod_def mod_map_def example_env_def)
  show ?thesis
    using parse_mods_none_token [OF a b c, of "[str ''shift'']" "str ''ctrl+NoNe+shift+a''"] a b d
    by simp
qed

section \<open>Actions without a registered parser\<close>

text \<open>
  C1, as stated, fails: no parser is registered for \<open>foo\<close>, and
  \<open>parse_key_action("foo bar baz")\<close> is \<open>None\<close>, not an action with the argument
  \<open>"bar baz"\<close>.
\<close>

theorem parse_key_action_unregistered_counterexample:
  "args_funcs example_env (str ''foo'') = None
   \<and> parse_key_action example_env (str ''foo bar baz'') = Inr None"
  by (simp add: example_env_def parse_key_action_def strip_def lstrip_def rstrip_def isspace_def)

text \<open>
  C1, amended: for every action string that splits into a function name and a non-empty
  remainder, if no argument parser is registered for the function name then
  \<open>parse_key_action\<close> returns \<open>None\<close>.
\<close>

theorem parse_key_action_unregistered:
  assumes "split_ws 1 (strip action) = [f, rest]" and "args_funcs e f = None"
  shows "parse_key_action e action = Inr None"
  using assms by (simp add: parse_key_action_def)

theorem parse_key_action_unregistered_witness:
  "split_ws 1 (strip (str ''foo bar baz'')) = [str ''foo'', str ''bar baz'']
   \<and> args_funcs example_env (str ''foo'') = None
   \<and> parse_key_action example_env (str ''foo bar baz'') = Inr None"
proof -
  have s: "split_ws 1 (strip (str ''foo bar baz'')) = [str ''foo'', str ''bar baz'']"
    by (simp add: strip_def lstrip_def rstrip_def isspace_def)
  have a: "args_funcs example_env (str ''foo'') = None"
    by (simp add: example_env_def)
  show ?thesis using parse_key_action_unregistered [OF s a] s a by simp
qed

section \<open>Kitten aliases\<close>

lemma alias_loop_no_match:
  "kitten \<notin> fst ` set als \<Longrightarrow> alias_loop als kitten rest changed = Inr (kitten, rest, changed)"
  by (induction als) auto

lemma alias_loop_skip:
  "kitten \<notin> fst ` set pre \<Longrightarrow>
   alias_loop (pre @ als) kitten rest changed = alias_loop als kitten rest changed"
  by (induction pre) auto

lemma alias_loop_raises:
  "alias_loop als kitten rest changed = Inl x \<Longrightarrow> x = IndexError \<and> (\<exists>p\<in>set als. snd p = [])"
proof (induction als arbitrary: kitten rest changed)
  case Nil
  then show ?case by simp
next
  case (Cons p als)
  obtain k ex where p: "p = (k, ex)" by (cases p)
  show ?case
  proof (cases "k = kitten")
    case True
    show ?thesis
    proof (cases ex)
      case Nil
      with Cons.prems p True show ?thesis by simp
    next
      case (Cons y ys)
      with Cons.prems p True Cons.IH show ?thesis by fastforce
    qed
  next
    case False
    with Cons.prems p Cons.IH show ?thesis by fastforce
  qed
qed

lemma alias_loop_changed:
  "alias_loop als kitten rest changed = Inr (n, r', c) \<Longrightarrow>
   changed \<or> kitten \<in> fst ` set als \<Longrightarrow> c"
proof (induction als arbitrary: kitten rest changed)
  case Nil
  then show ?case by simp
next
  case (Cons p als)
  obtain k ex where p: "p = (k, ex)" by (cases p)
  show ?case
  proof (cases "k = kitten")
    case True
    with Cons.prems(1) p obtain y ys where ex: "ex = y # ys"
      by (cases ex) auto
    with Cons.prems(1) p True
    have "alias_loop als y (case ys of [] \<Rightarrow> rest | z # _ \<Rightarrow> z @ str '' '' @ rest) True = Inr (n, r', c)"
      by simp
    then show ?thesis by (rule Cons.IH) simp
  next
    case False
    with Cons.prems p have "alias_loop als kitten rest changed = Inr (n, r', c)"
      and "changed \<or> kitten \<in> fst ` set als" by auto
    then show ?thesis by (rule Cons.IH)
  qed
qed

text \<open>
  C3, as stated, fails: with the table \<open>{a: [b, x], b: [c, y]}\<close>, whose keys are
  distinct, the action \<open>kitten a r\<close> is rewritten twice in one call, to \<open>c\<close> with
  \<open>y x r\<close>: the scan goes on after the first match, and the entry of \<open>b\<close> expands
  the substituted name.
\<close>

theorem resolve_kitten_aliases_chain_counterexample:
  "distinct (map fst [(str ''a'', [str ''b'', str ''x'']), (str ''b'', [str ''c'', str ''y''])])
   \<and> resolve_kitten_aliases
        [(str ''a'', [str ''b'', str ''x'']), (str ''b'', [str ''c'', str ''y''])]
        \<lparr>func = str ''kitten'', args = [str ''a'', str ''r'']\<rparr>
      = Inr \<lparr>func = str ''kitten'', args = [str ''c'', str ''y x r'']\<rparr>"
  by (simp add: resolve_kitten_aliases_def rstrip_def isspace_def)

text \<open>
  C3, amended: for every alias table with distinct keys and every action with at least
  one argument, the entry whose key equals the plugin name is applied once, and the scan
  then goes on over the later entries with the substituted name: the result is what
  the rest of the loop computes from it. Hence exactly one rewrite happens if the
  substituted name is not the key of a later entry; and if it is the key of a later
  entry, that entry expands it again (to exactly two rewrites if the second substituted
  name is not a key after that). Entries before the match are not visited again.
\<close>

theorem resolve_kitten_aliases_scan:
  assumes "distinct (map fst als)"
    and "als = pre @ (k, x # xs) # post"
    and "args a = k # t"
    and "rest' = (case xs of [] \<Rightarrow> (case t of [] \<Rightarrow> [] | r # _ \<Rightarrow> r)
                  | y # _ \<Rightarrow> y @ str '' '' @ (case t of [] \<Rightarrow> [] | r # _ \<Rightarrow> r))"
  shows "resolve_kitten_aliases als a =
           (case alias_loop post x rest' True of
              Inl err \<Rightarrow> Inl err
            | Inr (name, rest, changed) \<Rightarrow> Inr (a\<lparr>args := [name, rstrip rest]\<rparr>))
       \<and> (x \<notin> fst ` set post \<longrightarrow>
            resolve_kitten_aliases als a = Inr (a\<lparr>args := [x, rstrip rest']\<rparr>))
       \<and> (\<forall>post1 y ys post2.
            post = post1 @ (x, y # ys) # post2 \<longrightarrow>
              alias_loop post x rest' True =
                alias_loop post2 y (case ys of [] \<Rightarrow> rest' | z # _ \<Rightarrow> z @ str '' '' @ rest') True
            \<and> (y \<notin> fst ` set post2 \<longrightarrow>
                 resolve_kitten_aliases als a =
                   Inr (a\<lparr>args := [y, rstrip (case ys of [] \<Rightarrow> rest'
                                                | z # _ \<Rightarrow> z @ str '' '' @ rest')]\<rparr>)))"
proof (intro conjI allI impI)
  define rest where "rest = (case t of [] \<Rightarrow> [] | r # _ \<Rightarrow> r)"
  have r': "rest' = (case xs of [] \<Rightarrow> rest | y # _ \<Rightarrow> y @ str '' '' @ rest)"
    unfolding assms(4) rest_def ..
  have "k \<notin> fst ` set pre"
    using assms(1,2) by auto
  then have "alias_loop als k rest False = alias_loop ((k, x # xs) # post) k rest False"
    unfolding assms(2) by (rule alias_loop_skip)
  also have "\<dots> = alias_loop post x rest' True"
    by (simp add: r')
  finally have scan: "alias_loop als k rest False = alias_loop post x rest' True" .
  have changed: "c" if "alias_loop post x rest' True = Inr (n, r, c)" for n r c
    using that by (rule alias_loop_changed) simp
  show main: "resolve_kitten_aliases als a =
           (case alias_loop post x rest' True of
              Inl err \<Rightarrow> Inl err
            | Inr (name, rest, changed) \<Rightarrow> Inr (a\<lparr>args := [name, rstrip rest]\<rparr>))"
  proof (cases "alias_loop post x rest' True")
    case (Inl err)
    with scan assms(3) show ?thesis
      unfolding resolve_kitten_aliases_def rest_def by simp
  next
    case (Inr res)
    obtain n r c where res: "res = (n, r, c)" by (cases res)
    with Inr changed have c by simp
    with Inr res scan assms(3) show ?thesis
      unfolding resolve_kitten_aliases_def rest_def by simp
  qed
  show "resolve_kitten_aliases als a = Inr (a\<lparr>args := [x, rstrip rest']\<rparr>)"
    if "x \<notin> fst ` set post"
  proof -
    have "alias_loop post x rest' True = Inr (x, rest', True)"
      using that by (rule alias_loop_no_match)
    with main show ?thesis by simp
  qed
  fix post1 y ys post2
  assume post: "post = post1 @ (x, y # ys) # post2"
  have "distinct (map fst post)"
    using assms(1,2) by simp
  then have "x \<notin> fst ` set post1"
    unfolding post by auto
  then have "alias_loop post x rest' True = alias_loop ((x, y # ys) # post2) x rest' True"
    unfolding post by (rule alias_loop_skip)
  then show again: "alias_loop post x rest' True =
                alias_loop post2 y (case ys of [] \<Rightarrow> rest' | z # _ \<Rightarrow> z @ str '' '' @ rest') True"
    by simp
  show "resolve_kitten_aliases als a =
                   Inr (a\<lparr>args := [y, rstrip (case ys of [] \<Rightarrow> rest'
                                                | z # _ \<Rightarrow> z @ str '' '' @ rest')]\<rparr>)"
    if "y \<notin> fst ` set post2"
  proof -
    have "alias_loop post2 y (case ys of [] \<Rightarrow> rest' | z # _ \<Rightarrow> z @ str '' '' @ rest') True
          = Inr (y, (case ys of [] \<Rightarrow> rest' | z # _ \<Rightarrow> z @ str '' '' @ rest'), True)"
      using that by (rule alias_loop_no_match)
    with main again show ?thesis by simp
  qed
qed

theorem resolve_kitten_aliases_scan_witness:
  "distinct (map fst [(str ''b'', [str ''c'', str ''y'']), (str ''a'', [str ''b'', str ''x''])])
   \<and> resolve_kitten_aliases
        [(str ''b'', [str ''c'', str ''y'']), (str ''a'', [str ''b'', str ''x''])]
        \<lparr>func = str ''kitten'', args = [str ''a'', str ''r'']\<rparr>
      = Inr \<lparr>func = str ''kitten'', args = [str ''b'', str ''x r'']\<rparr>
   \<and> distinct (map fst [(str ''a'', [str ''b'', str ''x'']), (str ''z'', [str ''q'']),
                        (str ''b'', [str ''c''])])
   \<and> resolve_kitten_aliases
        [(str ''a'', [str ''b'', str ''x'']), (str ''z'', [str ''q'']), (str ''b'', [str ''c''])]
        \<lparr>func = str ''kitten'', args = [str ''a'']\<rparr>
      = Inr \<lparr>func = str ''kitten'', args = [str ''c'', str ''x'']\<rparr>"
proof -
  have d1: "distinct (map fst [(str ''b'', [str ''c'', str ''y'']), (str ''a'', [str ''b'', str ''x''])])"
    by simp
  have s1: "[(str ''b'', [str ''c'', str ''y'']), (str ''a'', [str ''b'', str ''x''])]
           = [(str ''b'', [str ''c'', str ''y''])] @ (str ''a'', str ''b'' # [str ''x'']) # []"
    by simp
  have a1: "args \<lparr>func = str ''kitten'', args = [str ''a'', str ''r'']\<rparr> = str ''a'' # [str ''r'']"
    by simp
  have r1: "str ''x r'' = (case [str ''x''] of [] \<Rightarrow> (case [str ''r''] of [] \<Rightarrow> [] | r # _ \<Rightarrow> r)
                  | y # _ \<Rightarrow> y @ str '' '' @ (case [str ''r''] of [] \<Rightarrow> [] | r # _ \<Rightarrow> r))"
    by simp
  have one: "resolve_kitten_aliases
        [(str ''b'', [str ''c'', str ''y'']), (str ''a'', [str ''b'', str ''x''])]
        \<lparr>func = str ''kitten'', args = [str ''a'', str ''r'']\<rparr>
      = Inr \<lparr>func = str ''kitten'', args = [str ''b'', str ''x r'']\<rparr>"
    using resolve_kitten_aliases_scan [OF d1 s1 a1 r1]
    by (simp add: rstrip_def isspace_def)
  have d2: "distinct (map fst [(str ''a'', [str ''b'', str ''x'']), (str ''z'', [str ''q'']),
                        (str ''b'', [str ''c''])])"
    by simp
  have s2: "[(str ''a'', [str ''b'', str ''x'']), (str ''z'', [str ''q'']), (str ''b'', [str ''c''])]
           = [] @ (str ''a'', str ''b'' # [str ''x''])
                # [(str ''z'', [str ''q'']), (str ''b'', [str ''c''])]"
    by simp
  have a2: "args \<lparr>func = str ''kitten'', args = [str ''a'']\<rparr> = str ''a'' # []"
    by simp
  have r2: "str ''x '' = (case [str ''x''] of [] \<Rightarrow> (case ([] :: pystr list) of [] \<Rightarrow> [] | r # _ \<Rightarrow> r)
                  | y # _ \<Rightarrow> y @ str '' '' @ (case ([] :: pystr list) of [] \<Rightarrow> [] | r # _ \<Rightarrow> r))"
    by simp
  have p2: "[(str ''z'', [str ''q'']), (str ''b'', [str ''c''])]
            = [(str ''z'', [str ''q''])] @ (str ''b'', str ''c'' # []) # []"
    by simp
  have n2: "str ''c'' \<notin> fst ` set ([] :: aliases)"
    by simp
  from resolve_kitten_aliases_scan [OF d2 s2 a2 r2]
  have "\<forall>post1 y ys post2.
          [(str ''z'', [str ''q'']), (str ''b'', [str ''c''])] = post1 @ (str ''b'', y # ys) # post2 \<longrightarrow>
          (y \<notin> fst ` set post2 \<longrightarrow>
             resolve_kitten_aliases
               [(str ''a'', [str ''b'', str ''x'']), (str ''z'', [str ''q'']), (str ''b'', [str ''c''])]
               \<lparr>func = str ''kitten'', args = [str ''a'']\<rparr>
             = Inr (\<lparr>func = str ''kitten'', args = [str ''a'']\<rparr>
                     \<lparr>args := [y, rstrip (case ys of [] \<Rightarrow> str ''x ''
                                                | z # _ \<Rightarrow> z @ str '' '' @ str ''x '')]\<rparr>))"
    by blast
  from this [rule_format, OF p2 n2]
  have two: "resolve_kitten_aliases
        [(str ''a'', [str ''b'', str ''x'']), (str ''z'', [str ''q'']), (str ''b'', [str ''c''])]
        \<lparr>func = str ''kitten'', args = [str ''a'']\<rparr>
      = Inr \<lparr>func = str ''kitten'', args = [str ''c'', str ''x'']\<rparr>"
    by (simp add: rstrip_def isspace_def)
  show ?thesis
    using d1 one d2 two by blast
qed

text \<open>
  C10: when some alias key equals argument 0, \<open>resolve_kitten_aliases\<close> either raises
  IndexError (possible only if the table has an empty expansion) or leaves an argument
  list of exactly two elements, the plugin name and the right-stripped trailing
  arguments that the scan ends with; arguments past index 1 are gone.
\<close>

theorem resolve_kitten_aliases_two_args:
  assumes "args a = k # t" and "k \<in> fst ` set als"
  shows "(resolve_kitten_aliases als a = Inl IndexError \<and> (\<exists>p\<in>set als. snd p = []))
       \<or> (\<exists>name rest.
            alias_loop als k (case t of [] \<Rightarrow> [] | r # _ \<Rightarrow> r) False = Inr (name, rest, True)
          \<and> resolve_kitten_aliases als a = Inr (a\<lparr>args := [name, rstrip rest]\<rparr>)
          \<and> length (args (a\<lparr>args := [name, rstrip rest]\<rparr>)) = 2)"
proof (cases "alias_loop als k (case t of [] \<Rightarrow> [] | r # _ \<Rightarrow> r) False")
  case (Inl x)
  from alias_loop_raises [OF Inl] Inl assms(1) show ?thesis
    by (simp add: resolve_kitten_aliases_def)
next
  case (Inr res)
  obtain name rest c where res: "res = (name, rest, c)" by (cases res)
  from Inr res assms(2) have c by (auto dest: alias_loop_changed)
  with Inr res assms(1) show ?thesis
    by (simp add: resolve_kitten_aliases_def)
qed

theorem resolve_kitten_aliases_two_args_witness:
  "resolve_kitten_aliases [(str ''a'', [str ''b'', str ''x ''])]
      \<lparr>func = str ''kitten'', args = [str ''a'', str ''r  '', str ''s'', str ''t'']\<rparr>
     = Inr \<lparr>func = str ''kitten'', args = [str ''b'', str ''x  r'']\<rparr>"
proof -
  have a: "args \<lparr>func = str ''kitten'', args = [str ''a'', str ''r  '', str ''s'', str ''t'']\<rparr>
           = str ''a'' # [str ''r  '', str ''s'', str ''t'']"
    by simp
  have k: "str ''a'' \<in> fst ` set [(str ''a'', [str ''b'', str ''x ''])]"
    by simp
  show ?thesis
    using resolve_kitten_aliases_two_args [OF a k]
    by (simp add: rstrip_def isspace_def)
qed

section \<open>Properties of resolve\<close>

lemma resolve_key_mods_idem:
  "resolve_key_mods e k (resolve_key_mods e k m) = resolve_key_mods e k m"
proof -
  have "((m AND NOT p) OR k) AND NOT p OR k = (m AND NOT p) OR k" for p :: int
    by (rule bit_eqI) (auto simp: bit_simps)
  then show ?thesis
    by (simp add: resolve_key_mods_def)
qed

lemma resolve_r_idem: "resolve_r e k (resolve_r e k s) = resolve_r e k s"
  by (simp add: resolve_r_def resolve_key_mods_idem)

text \<open>
  After one application the placeholder is absent, provided the primary modifier does
  not contain the placeholder itself.
\<close>

lemma resolve_key_mods_placeholder_gone:
  "kitty_mod AND glfw_mod_kitty e = 0 \<Longrightarrow>
   resolve_key_mods e kitty_mod m AND glfw_mod_kitty e = 0"
  by (simp add: resolve_key_mods_def bit.conj_disj_distrib2 and.assoc)

text \<open>
  C6: for every \<open>KeyDefinition\<close> or \<open>MouseMapping\<close> and every primary modifier,
  \<open>resolve\<close> applied twice gives the state that \<open>resolve\<close> applied once gives.
\<close>

theorem resolve_idempotent:
  "KeyDefinition_resolve e kitty_mod (KeyDefinition_resolve e kitty_mod d)
     = KeyDefinition_resolve e kitty_mod d
   \<and> MouseMapping_resolve e kitty_mod (MouseMapping_resolve e kitty_mod m)
     = MouseMapping_resolve e kitty_mod m"
  by (simp add: KeyDefinition_resolve_def MouseMapping_resolve_def resolve_r_idem
      resolve_key_mods_idem)

theorem resolve_idempotent_witness:
  "KeyDefinition_resolve example_env 5
     \<lparr>kd_is_sequence = True, kd_action = \<lparr>func = str ''new_tab'', args = []\<rparr>,
      kd_trigger = \<lparr>mods = 258, is_native = False, key = 97\<rparr>,
      kd_rest = [\<lparr>mods = 256, is_native = False, key = 98\<rparr>]\<rparr>
   = \<lparr>kd_is_sequence = True, kd_action = \<lparr>func = str ''new_tab'', args = []\<rparr>,
      kd_trigger = \<lparr>mods = 7, is_native = False, key = 97\<rparr>,
      kd_rest = [\<lparr>mods = 5, is_native = False, key = 98\<rparr>]\<rparr>
   \<and> KeyDefinition_resolve example_env 5
     \<lparr>kd_is_sequence = True, kd_action = \<lparr>func = str ''new_tab'', args = []\<rparr>,
      kd_trigger = \<lparr>mods = 7, is_native = False, key = 97\<rparr>,
      kd_rest = [\<lparr>mods = 5, is_native = False, key = 98\<rparr>]\<rparr>
   = \<lparr>kd_is_sequence = True, kd_action = \<lparr>func = str ''new_tab'', args = []\<rparr>,
      kd_trigger = \<lparr>mods = 7, is_native = False, key = 97\<rparr>,
      kd_rest = [\<lparr>mods = 5, is_native = False, key = 98\<rparr>]\<rparr>"
proof -
  have 1: "KeyDefinition_resolve example_env 5
     \<lparr>kd_is_sequence = True, kd_action = \<lparr>func = str ''new_tab'', args = []\<rparr>,
      kd_trigger = \<lparr>mods = 258, is_native = False, key = 97\<rparr>,
      kd_rest = [\<lparr>mods = 256, is_native = False, key = 98\<rparr>]\<rparr>
   = \<lparr>kd_is_sequence = True, kd_action = \<lparr>func = str ''new_tab'', args = []\<rparr>,
      kd_trigger = \<lparr>mods = 7, is_native = False, key = 97\<rparr>,
      kd_rest = [\<lparr>mods = 5, is_native = False, key = 98\<rparr>]\<rparr>"
    by (simp add: KeyDefinition_resolve_def resolve_r_def resolve_key_mods_def example_env_def)
  show ?thesis
    using resolve_idempotent [of example_env 5
     "\<lparr>kd_is_sequence = True, kd_action = \<lparr>func = str ''new_tab'', args = []\<rparr>,
      kd_trigger = \<lparr>mods = 258, is_native = False, key = 97\<rparr>,
      kd_rest = [\<lparr>mods = 256, is_native = False, key = 98\<rparr>]\<rparr>"] 1
    by simp
qed

text \<open>
  C7: \<open>resolve\<close> changes only modifier masks. For a \<open>KeyDefinition\<close>, the flag
  \<open>is_sequence\<close>, the action, the key code and native flag of the head trigger, and the
  number, the key codes and the native flags of the tail triggers, in order, are
  unchanged; for a \<open>MouseMapping\<close>, button, repeat count, grabbed flag and action are
  unchanged.
\<close>

theorem resolve_frame:
  "kd_is_sequence (KeyDefinition_resolve e kitty_mod d) = kd_is_sequence d
   \<and> kd_action (KeyDefinition_resolve e kitty_mod d) = kd_action d
   \<and> key (kd_trigger (KeyDefinition_resolve e kitty_mod d)) = key (kd_trigger d)
   \<and> is_native (kd_trigger (KeyDefinition_resolve e kitty_mod d)) = is_native (kd_trigger d)
   \<and> length (kd_rest (KeyDefinition_resolve e kitty_mod d)) = length (kd_rest d)
   \<and> map key (kd_rest (KeyDefinition_resolve e kitty_mod d)) = map key (kd_rest d)
   \<and> map is_native (kd_rest (KeyDefinition_resolve e kitty_mod d)) = map is_native (kd_rest d)
   \<and> mm_button (MouseMapping_resolve e kitty_mod m) = mm_button m
   \<and> mm_repeat_count (MouseMapping_resolve e kitty_mod m) = mm_repeat_count m
   \<and> mm_grabbed (MouseMapping_resolve e kitty_mod m) = mm_grabbed m
   \<and> mm_action (MouseMapping_resolve e kitty_mod m) = mm_action m"
  by (simp add: KeyDefinition_resolve_def MouseMapping_resolve_def resolve_r_def comp_def)

theorem resolve_frame_witness:
  "KeyDefinition_resolve example_env 5
     \<lparr>kd_is_sequence = True, kd_action = \<lparr>func = str ''new_tab'', args = []\<rparr>,
      kd_trigger = \<lparr>mods = 258, is_native = False, key = 97\<rparr>,
      kd_rest = [\<lparr>mods = 256, is_native = True, key = 65\<rparr>]\<rparr>
   = \<lparr>kd_is_sequence = True, kd_action = \<lparr>func = str ''new_tab'', args = []\<rparr>,
      kd_trigger = \<lparr>mods = 7, is_native = False, key = 97\<rparr>,
      kd_rest = [\<lparr>mods = 5, is_native = True, key = 65\<rparr>]\<rparr>
   \<and> MouseMapping_resolve example_env 5
     \<lparr>mm_button = 0, mm_mods = 257, mm_repeat_count = -2, mm_grabbed = False,
      mm_action = \<lparr>func = str ''close_tab'', args = []\<rparr>\<rparr>
   = \<lparr>mm_button = 0, mm_mods = 5, mm_repeat_count = -2, mm_grabbed = False,
      mm_action = \<lparr>func = str ''close_tab'', args = []\<rparr>\<rparr>"
  using resolve_frame [of example_env 5
     "\<lparr>kd_is_sequence = True, kd_action = \<lparr>func = str ''new_tab'', args = []\<rparr>,
      kd_trigger = \<lparr>mods = 258, is_native = False, key = 97\<rparr>,
      kd_rest = [\<lparr>mods = 256, is_native = True, key = 65\<rparr>]\<rparr>"
     "\<lparr>mm_button = 0, mm_mods = 257, mm_repeat_count = -2, mm_grabbed = False,
      mm_action = \<lparr>func = str ''close_tab'', args = []\<rparr>\<rparr>"]
  by (simp add: KeyDefinition_resolve_def MouseMapping_resolve_def resolve_r_def
      resolve_key_mods_def example_env_def)

section \<open>Key sequences\<close>

lemma split_on_not_Nil: "split_on sep s \<noteq> []"
  by (induction s) (auto split: list.splits)

lemma length_split_on: "length (split_on sep s) = Suc (length (filter (\<lambda>c. c = sep) s))"
proof (induction s)
  case Nil
  show ?case by simp
next
  case (Cons c s)
  then show ?case
    by (cases "split_on sep s") (auto simp: split_on_not_Nil)
qed

lemma split_on_two: "sep \<in> set s \<Longrightarrow> 2 \<le> length (split_on sep s)"
proof -
  assume "sep \<in> set s"
  then have "filter (\<lambda>c. c = sep) s \<noteq> []"
    by (simp add: filter_empty_conv)
  then have "0 < length (filter (\<lambda>c. c = sep) s)" by simp
  then have "2 \<le> Suc (length (filter (\<lambda>c. c = sep) s))" by arith
  then show ?thesis by (simp only: length_split_on)
qed

lemma parse_shortcut_raises: "parse_shortcut e sc = Inl x \<Longrightarrow> x = InvalidMods"
  by (auto simp: parse_shortcut_def Let_def split: if_splits prod.splits)

text \<open>
  A segment with a modifier part whose tokens do not all resolve makes
  \<open>parse_shortcut\<close> raise \<open>InvalidMods\<close>.
\<close>

lemma parse_shortcut_unresolved_mods:
  assumes "sc = (if sc0 \<noteq> [] \<and> last sc0 = 43 \<and> length sc0 > 1
                 then butlast sc0 @ str ''plus'' else sc0)"
    and "length (split_on 43 sc) > 1"
    and "fst (parse_mods e (butlast (split_on 43 sc)) sc) = None"
  shows "parse_shortcut e sc0 = Inl InvalidMods"
  using assms(2,3) unfolding parse_shortcut_def assms(1) [symmetric] Let_def
  by (simp add: or0_def)

lemma parse_sequence_stops:
  assumes "part \<in> set ps"
    and "parse_shortcut e part = Inl InvalidMods \<or> (\<exists>k. parse_shortcut e part = Inr k \<and> key k = 0)"
  shows "parse_sequence e ps trigger restl = Inr None"
  using assms(1)
proof (induction ps arbitrary: trigger restl)
  case Nil
  then show ?case by simp
next
  case (Cons q ps)
  show ?case
  proof (cases "parse_shortcut e q")
    case (Inl x)
    then have "x = InvalidMods" by (rule parse_shortcut_raises)
    with Inl show ?thesis by simp
  next
    case (Inr k)
    show ?thesis
    proof (cases "key k = 0")
      case True
      with Inr show ?thesis by simp
    next
      case False
      with Inr assms(2) have "part \<noteq> q" by auto
      with Cons.prems have "part \<in> set ps" by simp
      then have "parse_sequence e ps t rl = Inr None" for t rl
        by (rule Cons.IH)
      with Inr False show ?thesis
        by (simp split: option.splits)
    qed
  qed
qed

lemmas ws_defs = strip_def lstrip_def rstrip_def strip_char_def isspace_def sequence_sep_def

text \<open>
  C5: for every map directive whose shortcut field is a sequence, if some segment makes
  \<open>parse_shortcut\<close> raise \<open>InvalidMods\<close> (its modifiers do not resolve) or has key code
  0, then \<open>parse_map\<close> yields no definition at all for the line.
\<close>

theorem parse_map_sequence_all_or_nothing:
  assumes "split_ws 1 val = [sc0, action0]"
    and "sequence_sep \<in> set (strip_char sequence_sep (strip sc0))"
    and "part \<in> set (split_on sequence_sep (strip_char sequence_sep (strip sc0)))"
    and "parse_shortcut e part = Inl InvalidMods
         \<or> (\<exists>k. parse_shortcut e part = Inr k \<and> key k = 0)"
  shows "parse_map e val = Inr []"
proof -
  have "parse_sequence e (split_on sequence_sep (strip_char sequence_sep (strip sc0))) None []
        = Inr None"
    using assms(3,4) by (rule parse_sequence_stops)
  then show ?thesis
    using assms(1,2) by (simp add: parse_map_def Let_def)
qed

theorem parse_map_sequence_all_or_nothing_witness:
  "split_ws 1 (str ''ctrl+a>bogus+b>ctrl+c new_tab'') = [str ''ctrl+a>bogus+b>ctrl+c'', str ''new_tab'']
   \<and> sequence_sep \<in> set (strip_char sequence_sep (strip (str ''ctrl+a>bogus+b>ctrl+c'')))
   \<and> str ''bogus+b'' \<in> set (split_on sequence_sep (strip_char sequence_sep (strip (str ''ctrl+a>bogus+b>ctrl+c''))))
   \<and> parse_shortcut example_env (str ''bogus+b'') = Inl InvalidMods
   \<and> parse_map example_env (str ''ctrl+a>bogus+b>ctrl+c new_tab'') = Inr []"
proof -
  have 1: "split_ws 1 (str ''ctrl+a>bogus+b>ctrl+c new_tab'') = [str ''ctrl+a>bogus+b>ctrl+c'', str ''new_tab'']"
    by (simp add: ws_defs)
  have s: "strip_char sequence_sep (strip (str ''ctrl+a>bogus+b>ctrl+c'')) = str ''ctrl+a>bogus+b>ctrl+c''"
    by (simp add: ws_defs)
  have 2: "sequence_sep \<in> set (strip_char sequence_sep (strip (str ''ctrl+a>bogus+b>ctrl+c'')))"
    unfolding s by (simp add: sequence_sep_def)
  have 3: "str ''bogus+b'' \<in> set (split_on sequence_sep (strip_char sequence_sep (strip (str ''ctrl+a>bogus+b>ctrl+c''))))"
    unfolding s by (simp add: sequence_sep_def)
  have 4: "parse_shortcut example_env (str ''bogus+b'') = Inl InvalidMods"
    by (simp add: parse_shortcut_def parse_mods_def str_defs map_mod_def mod_map_def example_env_def or0_def)
  have 5: "parse_shortcut example_env (str ''bogus+b'') = Inl InvalidMods
         \<or> (\<exists>k. parse_shortcut example_env (str ''bogus+b'') = Inr k \<and> key k = 0)"
    using 4 by simp
  show ?thesis
    using parse_map_sequence_all_or_nothing [OF 1 2 3 5] 1 2 3 4 by simp
qed

section \<open>Fan-out of mouse bindings\<close>

lemma distinct_pair:
  assumes "distinct xs" and "set xs = {a, b}" and "a \<noteq> b"
  shows "length xs = 2"
proof -
  have "length xs = card (set xs)"
    using assms(1) by (simp add: distinct_card)
  also have "\<dots> = 2"
    using assms(2,3) by simp
  finally show ?thesis .
qed

lemma distinct_single:
  assumes "distinct xs" and "set xs = {a}"
  shows "xs = [a]"
proof -
  have "length xs = card (set xs)"
    using assms(1) by (simp add: distinct_card)
  then have "length xs = 1"
    using assms(2) by simp
  then obtain x where "xs = [x]"
    by (cases xs) auto
  with assms(2) show ?thesis by simp
qed

lemma parse_mouse_map_accepts:
  assumes "split_ws 3 val = [xbutton, event, modes, action]"
    and "obutton = (if length (split_on 43 xbutton) > 1 then lower e (last (split_on 43 xbutton))
                    else lower e xbutton)"
    and "(if length (split_on 43 xbutton) > 1
          then fst (parse_mods e (butlast (split_on 43 xbutton)) obutton) else Some 0) = Some m"
    and "glfw_mouse_button e (drop 1 (button_alias obutton)) = Some button"
    and "event_count (lower e event) = Some cnt"
    and "set (split_on 44 (lower e modes)) \<subseteq> {str ''grabbed'', str ''ungrabbed''}"
    and "parse_key_action e action = Inr (Some paction)"
  shows "parse_mouse_map e val =
           Inr (map (\<lambda>mode. \<lparr>mm_button = button, mm_mods = m, mm_repeat_count = cnt,
                              mm_grabbed = (mode = str ''grabbed''), mm_action = paction\<rparr>)
                    (specified_modes e modes))"
proof -
  have f: "filter (\<lambda>x. x \<noteq> str ''grabbed'' \<and> x \<noteq> str ''ungrabbed'') (specified_modes e modes) = []"
    using assms(6) unfolding specified_modes_def filter_empty_conv by auto
  show ?thesis
    unfolding parse_mouse_map_def assms(1) Let_def
    using assms(3-5,7) f unfolding assms(2)
    by (simp split: if_splits)
qed

text \<open>
  C8: for every valid mouse_map directive, that is one with four fields whose modifier
  prefix (if any) resolves, whose button and event type are known, whose grab modes are
  all \<open>grabbed\<close> or \<open>ungrabbed\<close> and whose action parses, \<open>parse_mouse_map\<close>
  returns mappings: if the grab-modes field names both \<open>grabbed\<close> and \<open>ungrabbed\<close>,
  exactly two, with that button, modifier mask, repeat count and action, one grabbed and
  one not; if it names one mode only, exactly one, with that mode's flag.
\<close>

theorem parse_mouse_map_fan_out:
  assumes "split_ws 3 val = [xbutton, event, modes, action]"
    and "obutton = (if length (split_on 43 xbutton) > 1 then lower e (last (split_on 43 xbutton))
                    else lower e xbutton)"
    and "(if length (split_on 43 xbutton) > 1
          then fst (parse_mods e (butlast (split_on 43 xbutton)) obutton) else Some 0) = Some m"
    and "glfw_mouse_button e (drop 1 (button_alias obutton)) = Some button"
    and "event_count (lower e event) = Some cnt"
    and "set (split_on 44 (lower e modes)) \<subseteq> {str ''grabbed'', str ''ungrabbed''}"
    and "parse_key_action e action = Inr (Some paction)"
  shows "\<exists>ms. parse_mouse_map e val = Inr ms
         \<and> (str ''grabbed'' \<in> set (split_on 44 (lower e modes))
              \<and> str ''ungrabbed'' \<in> set (split_on 44 (lower e modes)) \<longrightarrow>
            length ms = 2 \<and>
            set ms = {\<lparr>mm_button = button, mm_mods = m, mm_repeat_count = cnt,
                       mm_grabbed = True, mm_action = paction\<rparr>,
                      \<lparr>mm_button = button, mm_mods = m, mm_repeat_count = cnt,
                       mm_grabbed = False, mm_action = paction\<rparr>})
         \<and> (str ''ungrabbed'' \<notin> set (split_on 44 (lower e modes)) \<longrightarrow>
            ms = [\<lparr>mm_button = button, mm_mods = m, mm_repeat_count = cnt,
                   mm_grabbed = True, mm_action = paction\<rparr>])
         \<and> (str ''grabbed'' \<notin> set (split_on 44 (lower e modes)) \<longrightarrow>
            ms = [\<lparr>mm_button = button, mm_mods = m, mm_repeat_count = cnt,
                   mm_grabbed = False, mm_action = paction\<rparr>])"
proof -
  define sm where "sm = specified_modes e modes"
  define ms where "ms = map (\<lambda>mode. \<lparr>mm_button = button, mm_mods = m, mm_repeat_count = cnt,
                            mm_grabbed = (mode = str ''grabbed''), mm_action = paction\<rparr>) sm"
  have res: "parse_mouse_map e val = Inr ms"
    unfolding ms_def sm_def using assms by (rule parse_mouse_map_accepts)
  have d: "distinct sm" and st: "set sm = set (split_on 44 (lower e modes))"
    by (simp_all add: sm_def specified_modes_def)
  have sub: "set sm \<subseteq> {str ''grabbed'', str ''ungrabbed''}"
    using assms(6) st by simp
  have ne: "sm \<noteq> []"
    using st split_on_not_Nil [of 44 "lower e modes"] by (cases sm) auto
  have neq: "str ''grabbed'' \<noteq> str ''ungrabbed''"
    by simp
  have both: "length ms = 2 \<and>
            set ms = {\<lparr>mm_button = button, mm_mods = m, mm_repeat_count = cnt,
                       mm_grabbed = True, mm_action = paction\<rparr>,
                      \<lparr>mm_button = button, mm_mods = m, mm_repeat_count = cnt,
                       mm_grabbed = False, mm_action = paction\<rparr>}"
    if "str ''grabbed'' \<in> set sm" and "str ''ungrabbed'' \<in> set sm"
  proof -
    have s: "set sm = {str ''grabbed'', str ''ungrabbed''}"
      using that sub by blast
    have "length sm = 2"
      using d s neq by (rule distinct_pair)
    moreover have "set ms = (\<lambda>mode. \<lparr>mm_button = button, mm_mods = m, mm_repeat_count = cnt,
                            mm_grabbed = (mode = str ''grabbed''), mm_action = paction\<rparr>) ` set sm"
      unfolding ms_def by simp
    ultimately show ?thesis
      unfolding s using ms_def by simp
  qed
  have only_g: "ms = [\<lparr>mm_button = button, mm_mods = m, mm_repeat_count = cnt,
                   mm_grabbed = True, mm_action = paction\<rparr>]"
    if "str ''ungrabbed'' \<notin> set sm"
  proof -
    have "set sm = {str ''grabbed''}"
      using that sub ne by (cases sm) auto
    with d have "sm = [str ''grabbed'']" by (rule distinct_single)
    then show ?thesis unfolding ms_def by simp
  qed
  have only_u: "ms = [\<lparr>mm_button = button, mm_mods = m, mm_repeat_count = cnt,
                   mm_grabbed = False, mm_action = paction\<rparr>]"
    if "str ''grabbed'' \<notin> set sm"
  proof -
    have "set sm = {str ''ungrabbed''}"
      using that sub ne by (cases sm) auto
    with d have "sm = [str ''ungrabbed'']" by (rule distinct_single)
    then show ?thesis unfolding ms_def by simp
  qed
  show ?thesis
    using res both only_g only_u unfolding st by blast
qed

theorem parse_mouse_map_fan_out_witness:
  "(\<exists>ms. parse_mouse_map example_env (str ''left press grabbed,ungrabbed close_tab'') = Inr ms
        \<and> length ms = 2
        \<and> set ms = {\<lparr>mm_button = 0, mm_mods = 0, mm_repeat_count = 1, mm_grabbed = True,
                      mm_action = \<lparr>func = str ''close_tab'', args = []\<rparr>\<rparr>,
                     \<lparr>mm_button = 0, mm_mods = 0, mm_repeat_count = 1, mm_grabbed = False,
                      mm_action = \<lparr>func = str ''close_tab'', args = []\<rparr>\<rparr>})
   \<and> parse_mouse_map example_env (str ''ctrl+right click ungrabbed close_tab'')
       = Inr [\<lparr>mm_button = 1, mm_mods = 4, mm_repeat_count = -2, mm_grabbed = False,
                mm_action = \<lparr>func = str ''close_tab'', args = []\<rparr>\<rparr>]"
proof -
  have pa: "parse_key_action example_env (str ''close_tab'')
            = Inr (Some \<lparr>func = str ''close_tab'', args = []\<rparr>)"
    by (simp add: parse_key_action_def ws_defs)
  have s1: "split_ws 3 (str ''left press grabbed,ungrabbed close_tab'')
     = [str ''left'', str ''press'', str ''grabbed,ungrabbed'', str ''close_tab'']"
    by (simp add: numeral_3_eq_3 isspace_def)
  have o1: "str ''left'' = (if length (split_on 43 (str ''left'')) > 1
                           then lower example_env (last (split_on 43 (str ''left'')))
                           else lower example_env (str ''left''))"
    by (simp add: str_defs)
  have m1: "(if length (split_on 43 (str ''left'')) > 1
          then fst (parse_mods example_env (butlast (split_on 43 (str ''left''))) (str ''left''))
          else Some 0) = Some 0"
    by simp
  have b1: "glfw_mouse_button example_env (drop 1 (button_alias (str ''left''))) = Some 0"
    by (simp add: button_alias_def example_env_def)
  have e1: "event_count (lower example_env (str ''press'')) = Some 1"
    by (simp add: event_count_def str_defs)
  have g1: "set (split_on 44 (lower example_env (str ''grabbed,ungrabbed'')))
            \<subseteq> {str ''grabbed'', str ''ungrabbed''}"
    by (simp add: str_defs)
  have in1: "str ''grabbed'' \<in> set (split_on 44 (lower example_env (str ''grabbed,ungrabbed'')))"
     "str ''ungrabbed'' \<in> set (split_on 44 (lower example_env (str ''grabbed,ungrabbed'')))"
    by (simp_all add: str_defs)
  have two: "\<exists>ms. parse_mouse_map example_env (str ''left press grabbed,ungrabbed close_tab'') = Inr ms
        \<and> length ms = 2
        \<and> set ms = {\<lparr>mm_button = 0, mm_mods = 0, mm_repeat_count = 1, mm_grabbed = True,
                      mm_action = \<lparr>func = str ''close_tab'', args = []\<rparr>\<rparr>,
                     \<lparr>mm_button = 0, mm_mods = 0, mm_repeat_count = 1, mm_grabbed = False,
                      mm_action = \<lparr>func = str ''close_tab'', args = []\<rparr>\<rparr>}"
    using parse_mouse_map_fan_out [OF s1 o1 m1 b1 e1 g1 pa] in1 by blast
  have s2: "split_ws 3 (str ''ctrl+right click ungrabbed close_tab'')
     = [str ''ctrl+right'', str ''click'', str ''ungrabbed'', str ''close_tab'']"
    by (simp add: numeral_3_eq_3 isspace_def)
  have o2: "str ''right'' = (if length (split_on 43 (str ''ctrl+right'')) > 1
                           then lower example_env (last (split_on 43 (str ''ctrl+right'')))
                           else lower example_env (str ''ctrl+right''))"
    by (simp add: str_defs)
  have m2: "(if length (split_on 43 (str ''ctrl+right'')) > 1
          then fst (parse_mods example_env (butlast (split_on 43 (str ''ctrl+right''))) (str ''right''))
          else Some 0) = Some 4"
    by (simp add: parse_mods_def str_defs map_mod_def mod_map_def example_env_def)
  have b2: "glfw_mouse_button example_env (drop 1 (button_alias (str ''right''))) = Some 1"
    by (simp add: button_alias_def example_env_def)
  have e2: "event_count (lower example_env (str ''click'')) = Some (-2)"
    by (simp add: event_count_def str_defs)
  have g2: "set (split_on 44 (lower example_env (str ''ungrabbed'')))
            \<subseteq> {str ''grabbed'', str ''ungrabbed''}"
    by (simp add: str_defs)
  have out2: "str ''grabbed'' \<notin> set (split_on 44 (lower example_env (str ''ungrabbed'')))"
    by (simp add: str_defs)
  have one: "parse_mouse_map example_env (str ''ctrl+right click ungrabbed close_tab'')
       = Inr [\<lparr>mm_button = 1, mm_mods = 4, mm_repeat_count = -2, mm_grabbed = False,
                mm_action = \<lparr>func = str ''close_tab'', args = []\<rparr>\<rparr>]"
    using parse_mouse_map_fan_out [OF s2 o2 m2 b2 e2 g2 pa] out2 by blast
  show ?thesis
    using two one by blast
qed

section \<open>What the entry points return\<close>

lemma dropWhile_strip_Nil:
  "dropWhile isspace (strip s) = [] \<longleftrightarrow> list_all isspace s"
proof (cases "dropWhile isspace s")
  case Nil
  then have "list_all isspace s"
    by (simp add: dropWhile_eq_Nil_conv list_all_iff)
  moreover have "strip s = []"
    unfolding strip_def lstrip_def rstrip_def Nil by simp
  ultimately show ?thesis by simp
next
  case (Cons c cs)
  then have c: "\<not> isspace c"
    by (metis hd_dropWhile list.sel(1) list.distinct(1))
  have "c \<in> set s"
    using Cons by (metis list.set_intros(1) set_dropWhileD)
  with c have n: "\<not> list_all isspace s"
    by (auto simp: list_all_iff)
  have "dropWhile isspace (rev cs @ [c]) = dropWhile isspace (rev cs) @ [c]"
    using c by (simp add: dropWhile_append)
  then have "strip s = c # rev (dropWhile isspace (rev cs))"
    using Cons by (simp add: strip_def lstrip_def rstrip_def)
  with c n show ?thesis by simp
qed

lemma split_ws_1_Nil: "split_ws 1 s = [] \<longleftrightarrow> dropWhile isspace s = []"
  by (simp add: Let_def)

lemma parse_key_action_raises_iff:
  "parse_key_action e action = Inl x \<longleftrightarrow> x = IndexError \<and> list_all isspace action"
proof -
  have "parse_key_action e action = Inl x \<longleftrightarrow> x = IndexError \<and> split_ws 1 (strip action) = []"
    unfolding parse_key_action_def
    by (auto split: list.splits option.splits sum.splits)
  then show ?thesis
    by (simp only: split_ws_1_Nil dropWhile_strip_Nil)
qed

lemma parse_sequence_returns: "parse_sequence e ps trigger restl \<noteq> Inl x"
proof (induction ps arbitrary: trigger restl)
  case Nil
  show ?case by simp
next
  case (Cons q ps)
  show ?case
  proof (cases "parse_shortcut e q")
    case (Inl y)
    then have "y = InvalidMods" by (rule parse_shortcut_raises)
    with Inl show ?thesis by simp
  next
    case (Inr k)
    with Cons.IH show ?thesis
      by (simp split: option.splits)
  qed
qed

lemma parse_sequence_keys:
  assumes "parse_sequence e ps trigger restl = Inr (Some (t, rest))"
    and "\<forall>k\<in>set_option trigger \<union> set restl. key k \<noteq> 0"
  shows "\<forall>k\<in>set_option t \<union> set rest. key k \<noteq> 0"
  using assms
proof (induction ps arbitrary: trigger restl)
  case Nil
  then show ?case by simp
next
  case (Cons q ps)
  from Cons.prems(1) obtain k where k: "parse_shortcut e q = Inr k" "key k \<noteq> 0"
    by (cases "parse_shortcut e q") (auto split: exn.splits if_splits)
  show ?case
  proof (cases trigger)
    case None
    with Cons.prems k have "parse_sequence e ps (Some k) restl = Inr (Some (t, rest))"
      and "\<forall>x\<in>set_option (Some k) \<union> set restl. key x \<noteq> 0" by auto
    then show ?thesis by (rule Cons.IH)
  next
    case (Some tr)
    with Cons.prems k have "parse_sequence e ps trigger (restl @ [k]) = Inr (Some (t, rest))"
      and "\<forall>x\<in>set_option trigger \<union> set (restl @ [k]). key x \<noteq> 0" by auto
    then show ?thesis by (rule Cons.IH)
  qed
qed

lemma parse_sequence_length:
  assumes "parse_sequence e ps trigger restl = Inr (Some (t, rest))"
    and "trigger = None \<longrightarrow> restl = []"
  shows "length (case t of None \<Rightarrow> [] | Some x \<Rightarrow> x # rest)
           = length ps + length (case trigger of None \<Rightarrow> [] | Some x \<Rightarrow> x # restl)"
  using assms
proof (induction ps arbitrary: trigger restl)
  case Nil
  then show ?case by auto
next
  case (Cons q ps)
  from Cons.prems(1) obtain k where k: "parse_shortcut e q = Inr k" "key k \<noteq> 0"
    by (cases "parse_shortcut e q") (auto split: exn.splits if_splits)
  show ?case
  proof (cases trigger)
    case None
    with Cons.prems k have "parse_sequence e ps (Some k) restl = Inr (Some (t, rest))"
      and "Some k = None \<longrightarrow> restl = []" by auto
    from Cons.IH [OF this] None Cons.prems(2) show ?thesis by simp
  next
    case (Some tr)
    with Cons.prems k have "parse_sequence e ps trigger (restl @ [k]) = Inr (Some (t, rest))"
      and "trigger = None \<longrightarrow> restl @ [k] = []" by auto
    from Cons.IH [OF this] Some show ?thesis by simp
  qed
qed

lemma yield_definition_cases:
  "yield_definition e action mk = Inr [] \<or> (\<exists>pa. yield_definition e action mk = Inr (mk pa))"
  by (auto simp: yield_definition_def split: sum.splits option.splits)

lemma parse_map_returns:
  "\<exists>ds. parse_map e val = Inr ds \<and> length ds \<le> 1 \<and> list_all
          (\<lambda>d. key (kd_trigger d) \<noteq> 0 \<and> list_all (\<lambda>k. key k \<noteq> 0) (kd_rest d)
                        \<and> kd_is_sequence d = (kd_rest d \<noteq> [])) ds"
proof (cases "\<exists>sc0 action0. split_ws 1 val = [sc0, action0]")
  case False
  then have "parse_map e val = Inr []"
    unfolding parse_map_def by (auto split: list.splits)
  then show ?thesis by simp
next
  case True
  then obtain sc0 action0 where sp: "split_ws 1 val = [sc0, action0]" by blast
  define sc where "sc = strip_char sequence_sep (strip sc0)"
  define action where "action = strip action0"
  show ?thesis
  proof (cases "sc = [] \<or> action = []")
    case True
    then have "parse_map e val = Inr []"
      unfolding parse_map_def sp by (auto simp: Let_def sc_def action_def)
    then show ?thesis by simp
  next
    case ne: False
    show ?thesis
    proof (cases "sequence_sep \<in> set sc")
      case seq: True
      show ?thesis
      proof (cases "parse_sequence e (split_on sequence_sep sc) None []")
        case (Inl x)
        then show ?thesis by (simp add: parse_sequence_returns)
      next
        case (Inr res)
        show ?thesis
        proof (cases res)
          case None
          with Inr ne seq have "parse_map e val = Inr []"
            unfolding parse_map_def sp by (simp add: Let_def sc_def action_def)
          then show ?thesis by simp
        next
          case (Some tr)
          obtain t rest where tr: "tr = (t, rest)" by (cases tr)
          have ps: "parse_sequence e (split_on sequence_sep sc) None [] = Inr (Some (t, rest))"
            using Inr Some tr by simp
          have keys: "\<forall>k\<in>set_option t \<union> set rest. key k \<noteq> 0"
            using ps by (rule parse_sequence_keys) simp
          have "length (case t of None \<Rightarrow> [] | Some x \<Rightarrow> x # rest)
                 = length (split_on sequence_sep sc) + length ([] :: SingleKey list)"
            using parse_sequence_length [OF ps] by simp
          moreover have "2 \<le> length (split_on sequence_sep sc)"
            using seq by (rule split_on_two)
          ultimately have "2 \<le> length (case t of None \<Rightarrow> [] | Some x \<Rightarrow> x # rest)"
            by simp
          then obtain h where t: "t = Some h" and rest: "rest \<noteq> []"
            by (cases t; cases rest) auto
          define mk where "mk = (\<lambda>paction. case t of
                       None \<Rightarrow> []
                     | Some t \<Rightarrow>
                         [\<lparr>kd_is_sequence = True, kd_action = paction,
                           kd_trigger = t, kd_rest = rest\<rparr>])"
          have pm: "parse_map e val = yield_definition e action mk"
            using ps ne seq unfolding parse_map_def sp mk_def
            by (simp add: Let_def sc_def action_def)
          have "length (mk pa) \<le> 1 \<and> list_all (\<lambda>d. key (kd_trigger d) \<noteq> 0 \<and> list_all (\<lambda>k. key k \<noteq> 0) (kd_rest d)
                        \<and> kd_is_sequence d = (kd_rest d \<noteq> [])) (mk pa)" for pa
            using keys t rest by (simp add: mk_def list_all_iff)
          with yield_definition_cases [of e action mk] pm show ?thesis
            by auto
        qed
      qed
    next
      case nseq: False
      show ?thesis
      proof (cases "parse_shortcut e sc")
        case (Inl x)
        then have "x = InvalidMods" by (rule parse_shortcut_raises)
        with Inl ne nseq have "parse_map e val = Inr []"
          unfolding parse_map_def sp by (simp add: Let_def sc_def action_def)
        then show ?thesis by simp
      next
        case (Inr k)
        show ?thesis
        proof (cases "key k = 0")
          case True
          with Inr ne nseq have "parse_map e val = Inr []"
            unfolding parse_map_def sp by (simp add: Let_def sc_def action_def)
          then show ?thesis by simp
        next
          case False
          define mk where "mk = (\<lambda>paction. [\<lparr>kd_is_sequence = False, kd_action = paction,
                                       kd_trigger = k, kd_rest = []\<rparr>])"
          have pm: "parse_map e val = yield_definition e action mk"
            using Inr False ne nseq unfolding parse_map_def sp mk_def
            by (simp add: Let_def sc_def action_def)
          have "length (mk pa) \<le> 1 \<and> list_all (\<lambda>d. key (kd_trigger d) \<noteq> 0 \<and> list_all (\<lambda>k. key k \<noteq> 0) (kd_rest d)
                        \<and> kd_is_sequence d = (kd_rest d \<noteq> [])) (mk pa)" for pa
            using False by (simp add: mk_def)
          with yield_definition_cases [of e action mk] pm show ?thesis
            by auto
        qed
      qed
    qed
  qed
qed

lemma event_count_range:
  "event_count ev = Some c \<Longrightarrow> c \<in> {-3, -2, -1, 1, 2, 3}"
  by (auto simp: event_count_def split: if_splits)

lemma parse_mouse_map_returns:
  "\<exists>ms. parse_mouse_map e val = Inr ms
        \<and> list_all (\<lambda>m. mm_repeat_count m \<in> {-3, -2, -1, 1, 2, 3}) ms"
  unfolding parse_mouse_map_def Let_def
  by (auto split: list.splits option.splits sum.splits simp: list_all_iff dest: event_count_range)

text \<open>
  C4, as stated, fails for \<open>parse_key_action\<close>: on the empty string and on a string of
  blanks \<open>parts[0]\<close> raises IndexError, which leaves the function.
\<close>

theorem parse_key_action_empty_counterexample:
  "parse_key_action example_env (str '''') = Inl IndexError
   \<and> parse_key_action example_env (str ''  '') = Inl IndexError"
  by (simp add: parse_key_action_def strip_def lstrip_def rstrip_def isspace_def)

text \<open>
  C4, amended: for every input string, \<open>parse_map\<close> and \<open>parse_mouse_map\<close> return
  normally. \<open>parse_map\<close> yields nothing or one definition whose triggers all have a
  non-zero key code and whose tail is non-empty exactly for a sequence;
  \<open>parse_mouse_map\<close> yields mappings with a repeat count among -3, -2, -1, 1, 2, 3.
  \<open>parse_key_action\<close> raises IndexError on the empty string and on whitespace-only
  strings, and on every other string returns normally, \<open>None\<close> or an action.
\<close>

theorem parse_entry_points_return:
  "(\<exists>ds. parse_map e val = Inr ds \<and> length ds \<le> 1 \<and> list_all
          (\<lambda>d. key (kd_trigger d) \<noteq> 0 \<and> list_all (\<lambda>k. key k \<noteq> 0) (kd_rest d)
                        \<and> kd_is_sequence d = (kd_rest d \<noteq> [])) ds)
   \<and> (\<exists>ms. parse_mouse_map e val = Inr ms
        \<and> list_all (\<lambda>m. mm_repeat_count m \<in> {-3, -2, -1, 1, 2, 3}) ms)
   \<and> (if list_all isspace val then parse_key_action e val = Inl IndexError
       else \<exists>res. parse_key_action e val = Inr res)"
proof (intro conjI)
  show "\<exists>ds. parse_map e val = Inr ds \<and> length ds \<le> 1 \<and> list_all
          (\<lambda>d. key (kd_trigger d) \<noteq> 0 \<and> list_all (\<lambda>k. key k \<noteq> 0) (kd_rest d)
                        \<and> kd_is_sequence d = (kd_rest d \<noteq> [])) ds"
    by (rule parse_map_returns)
  show "\<exists>ms. parse_mouse_map e val = Inr ms
        \<and> list_all (\<lambda>m. mm_repeat_count m \<in> {-3, -2, -1, 1, 2, 3}) ms"
    by (rule parse_mouse_map_returns)
  show "if list_all isspace val then parse_key_action e val = Inl IndexError
        else \<exists>res. parse_key_action e val = Inr res"
  proof (cases "list_all isspace val")
    case True
    then show ?thesis by (simp add: parse_key_action_raises_iff)
  next
    case False
    then have "parse_key_action e val \<noteq> Inl x" for x
      by (simp add: parse_key_action_raises_iff)
    then obtain res where "parse_key_action e val = Inr res"
      by (cases "parse_key_action e val") auto
    with False show ?thesis by simp
  qed
qed

theorem parse_entry_points_return_witness:
  "parse_map example_env (str ''ctrl+a>ctrl+b new_tab'')
     = Inr [\<lparr>kd_is_sequence = True, kd_action = \<lparr>func = str ''new_tab'', args = []\<rparr>,
              kd_trigger = \<lparr>mods = 4, is_native = False, key = 97\<rparr>,
              kd_rest = [\<lparr>mods = 4, is_native = False, key = 98\<rparr>]\<rparr>]
   \<and> parse_mouse_map example_env (str ''ctrl+a>ctrl+b new_tab'') = Inr []
   \<and> parse_key_action example_env (str ''ctrl+a>ctrl+b new_tab'') = Inr None"
proof -
  have 1: "split_ws 1 (str ''ctrl+a>ctrl+b new_tab'') = [str ''ctrl+a>ctrl+b'', str ''new_tab'']"
    by (simp add: isspace_def)
  have 2: "parse_shortcut example_env (str ''ctrl+a'') = Inr \<lparr>mods = 4, is_native = False, key = 97\<rparr>"
    "parse_shortcut example_env (str ''ctrl+b'') = Inr \<lparr>mods = 4, is_native = False, key = 98\<rparr>"
    by (simp_all add: parse_shortcut_def parse_mods_def str_defs map_mod_def mod_map_def
        example_env_def or0_def resolve_key_def
        character_key_name_aliases_with_ascii_lowercase_def)
  have 3: "parse_key_action example_env (str ''new_tab'')
           = Inr (Some \<lparr>func = str ''new_tab'', args = []\<rparr>)"
    by (simp add: parse_key_action_def ws_defs)
  have 4: "parse_map example_env (str ''ctrl+a>ctrl+b new_tab'')
     = Inr [\<lparr>kd_is_sequence = True, kd_action = \<lparr>func = str ''new_tab'', args = []\<rparr>,
              kd_trigger = \<lparr>mods = 4, is_native = False, key = 97\<rparr>,
              kd_rest = [\<lparr>mods = 4, is_native = False, key = 98\<rparr>]\<rparr>]"
    unfolding parse_map_def 1 using 2 3
    by (simp add: ws_defs yield_definition_def)
  have 5: "parse_mouse_map example_env (str ''ctrl+a>ctrl+b new_tab'') = Inr []"
    by (simp add: parse_mouse_map_def numeral_3_eq_3 isspace_def)
  have 6: "parse_key_action example_env (str ''ctrl+a>ctrl+b new_tab'') = Inr None"
    by (simp add: parse_key_action_def ws_defs example_env_def)
  show ?thesis
    using parse_entry_points_return [of example_env "str ''ctrl+a>ctrl+b new_tab''"] 4 5 6
    by simp
qed

end
